theory Spec2Isabelle
  imports Complex_Main "HOL-Library.Sublist" "HOL-Library.Multiset"
begin

section \<open>The train query of main.go\<close>

text \<open>
  The program answers one query: the trains of a dataset that leave one station and
  arrive at another, ordered by a criterion, the first three of them. This theory embeds
  \<^verbatim>\<open>FindTrains\<close> and the functions it calls, and proves the properties the
  specification states about it.
\<close>

subsection \<open>Constants, errors and the record type\<close>

definition dataPath :: string where
  "dataPath = ''data.json''"

definition priceCriteria :: string where
  "priceCriteria = ''price''"

definition arrivalTimeCriteria :: string where
  "arrivalTimeCriteria = ''arrival-time''"

definition departureTimeCriteria :: string where
  "departureTimeCriteria = ''departure-time''"

definition numOfReturnTrains :: nat where
  "numOfReturnTrains = 3"

definition minIDNumber :: int where
  "minIDNumber = 1"

definition minLen :: nat where
  "minLen = 1"

text \<open>The five error values of the package, each made once by \<^verbatim>\<open>errors.New\<close>.\<close>

datatype error =
    errCriteria
  | errEmptyDepStation
  | errEmptyArrStation
  | errBadDepStation
  | errBadArrStation

text \<open>The map \<^verbatim>\<open>criteriaOfSort\<close>; only the presence of a key is ever used.\<close>

definition criteriaOfSort :: "string \<rightharpoonup> string" where
  "criteriaOfSort =
     map_of [(''price'', ''price''),
             (''arrival-time'', ''arrival-time''),
             (''departure-time'', ''departure-time'')]"

text \<open>
  A \<^verbatim>\<open>time.Time\<close> is an instant; \<^verbatim>\<open>Before\<close> compares instants. The model
  is the number of nanoseconds since a fixed origin. A price is a \<^verbatim>\<open>float32\<close> that
  the JSON decoder produced, hence finite (JSON has no NaN and no infinity, and the
  decoder rejects a number out of range); on finite floats \<^verbatim>\<open><\<close> is the order of the
  rationals they denote, which is what the model keeps.
\<close>

type_synonym time = int

definition Before :: "time \<Rightarrow> time \<Rightarrow> bool" where
  "Before t u = (t < u)"

record Train =
  TrainID :: int
  DepartureStationID :: int
  ArrivalStationID :: int
  Price :: rat
  ArrivalTime :: time
  DepartureTime :: time

type_synonym Trains = "Train list"

subsection \<open>The library functions the query calls\<close>

text \<open>
  \<^verbatim>\<open>strconv.Atoi\<close> on a 64-bit \<^verbatim>\<open>int\<close>: an optional sign, then at least one
  character, all of them decimal digits; the digits are accumulated from the left, a
  non-digit is a syntax error, a value beyond 64 unsigned bits is a range error at the
  digit that exceeds it, and the signed value has to fit 64 signed bits.
\<close>

datatype NumError = ErrSyntax | ErrRange

definition isDigit :: "char \<Rightarrow> bool" where
  "isDigit c = (48 \<le> (of_char c :: nat) \<and> (of_char c :: nat) \<le> 57)"

definition digitVal :: "char \<Rightarrow> int" where
  "digitVal c = int (of_char c) - 48"

fun parseDigits :: "int \<Rightarrow> string \<Rightarrow> NumError + int" where
  "parseDigits n [] = Inr n"
| "parseDigits n (c # cs) =
     (if \<not> isDigit c then Inl ErrSyntax
      else if n * 10 + digitVal c > 2 ^ 64 - 1 then Inl ErrRange
      else parseDigits (n * 10 + digitVal c) cs)"

definition Atoi :: "string \<Rightarrow> NumError + int" where
  "Atoi s =
     (case s of
        [] \<Rightarrow> Inl ErrSyntax
      | c # cs \<Rightarrow>
          (let neg = (c = CHR ''-'');
               body = (if c = CHR ''-'' \<or> c = CHR ''+'' then cs else s)
           in if body = [] then Inl ErrSyntax
              else (case parseDigits 0 body of
                      Inl e \<Rightarrow> Inl e
                    | Inr un \<Rightarrow>
                        if \<not> neg \<and> un \<ge> 2 ^ 63 then Inl ErrRange
                        else if neg \<and> un > 2 ^ 63 then Inl ErrRange
                        else Inr (if neg then - un else un))))"

text \<open>
  \<^verbatim>\<open>sort.SliceStable\<close> with a \<^verbatim>\<open>less\<close> function. The library sorts by insertion:
  each element in turn moves left while it is less than its left neighbour (beyond twenty
  elements it sorts blocks so and merges them, keeping equal elements in order). The
  sorted prefix is held reversed, so that the left neighbour is the head.
\<close>

fun moveLeft :: "('a \<Rightarrow> 'a \<Rightarrow> bool) \<Rightarrow> 'a \<Rightarrow> 'a list \<Rightarrow> 'a list" where
  "moveLeft lt x [] = [x]"
| "moveLeft lt x (y # ys) =
     (if lt x y then y # moveLeft lt x ys else x # y # ys)"

definition SliceStable :: "('a \<Rightarrow> 'a \<Rightarrow> bool) \<Rightarrow> 'a list \<Rightarrow> 'a list" where
  "SliceStable lt xs = rev (foldl (\<lambda>acc x. moveLeft lt x acc) [] xs)"

subsection \<open>The dataset source and the effects\<close>

text \<open>
  What the file system holds at a path, as far as \<^verbatim>\<open>readDataFromJSON\<close> sees it:
  either \<^verbatim>\<open>os.Open\<close> fails with a message, or the file opens and
  \<^verbatim>\<open>json.Unmarshal\<close> leaves some records in the slice (its error is dropped).
  The effects of a call are listed in the order they happen.
\<close>

datatype source = Unreadable string | Readable Trains

datatype event = ReadFile string | Println string

text \<open>
  When the file cannot be opened the error is printed and the function goes on with a
  nil file: reading it yields no bytes, decoding no bytes fails and leaves the empty
  slice made at the start.
\<close>

definition readDataFromJSON :: "(string \<Rightarrow> source) \<Rightarrow> string \<Rightarrow> Trains \<times> event list" where
  "readDataFromJSON fs path =
     (case fs path of
        Unreadable msg \<Rightarrow> ([], [ReadFile path, Println msg])
      | Readable d \<Rightarrow> (d, [ReadFile path]))"

definition sortTrainsByAscending :: "Trains \<Rightarrow> string \<Rightarrow> Trains \<times> event list" where
  "sortTrainsByAscending trains criteria =
     ((if criteria = priceCriteria then
         SliceStable (\<lambda>a b. Price a < Price b) trains
       else if criteria = departureTimeCriteria then
         SliceStable (\<lambda>a b. Before (DepartureTime a) (DepartureTime b)) trains
       else if criteria = arrivalTimeCriteria then
         SliceStable (\<lambda>a b. Before (ArrivalTime a) (ArrivalTime b)) trains
       else trains),
      [Println (''Sorting by '' @ criteria)])"

subsection \<open>FindTrains\<close>

text \<open>
  The result is the pair the Go function returns, a slice that may be nil (\<open>None\<close>)
  and an error that may be nil, together with the effects of the call. The body of
  \<^verbatim>\<open>FindTrains\<close> is written in three parts: \<open>matching\<close> is its loop over the
  dataset, which appends each record with both stations equal to the parsed IDs;
  \<open>search\<close> is everything after the last validation check (load, loop, the
  \<^verbatim>\<open>len(trains) < minLen\<close> return, sort, cut to \<^verbatim>\<open>numOfReturnTrains\<close>);
  \<open>FindTrains\<close> is the five checks in the order of the source, followed by
  \<open>search\<close>. The sort works in place in Go; the model returns the sorted slice.
\<close>

type_synonym outcome = "(Trains option \<times> error option) \<times> event list"

definition matching :: "Trains \<Rightarrow> int \<Rightarrow> int \<Rightarrow> Trains" where
  "matching data departureStationID arrivalStationID =
     foldl (\<lambda>trains v.
              if DepartureStationID v = departureStationID
                 \<and> ArrivalStationID v = arrivalStationID
              then trains @ [v] else trains) [] data"

definition search :: "(string \<Rightarrow> source) \<Rightarrow> int \<Rightarrow> int \<Rightarrow> string \<Rightarrow> outcome" where
  "search fs departureStationID arrivalStationID criteria =
     (let (data, ev1) = readDataFromJSON fs dataPath;
          trains = matching data departureStationID arrivalStationID
      in if length trains < minLen then ((None, None), ev1)
         else (let (ordered, ev2) = sortTrainsByAscending trains criteria
               in if length ordered < numOfReturnTrains
                  then ((Some ordered, None), ev1 @ ev2)
                  else ((Some (take numOfReturnTrains ordered), None), ev1 @ ev2)))"

definition FindTrains :: "(string \<Rightarrow> source) \<Rightarrow> string \<Rightarrow> string \<Rightarrow> string \<Rightarrow> outcome" where
  "FindTrains fs departureStation arrivalStation criteria =
     (if length departureStation < minLen then ((None, Some errEmptyDepStation), [])
      else if length arrivalStation < minLen then ((None, Some errEmptyArrStation), [])
      else (case Atoi departureStation of
              Inl err \<Rightarrow> ((None, Some errBadDepStation), [])
            | Inr departureStationID \<Rightarrow>
                if departureStationID < minIDNumber
                then ((None, Some errBadDepStation), [])
                else (case Atoi arrivalStation of
                        Inl err \<Rightarrow> ((None, Some errBadArrStation), [])
                      | Inr arrivalStationID \<Rightarrow>
                          if arrivalStationID < minIDNumber
                          then ((None, Some errBadArrStation), [])
                          else if criteriaOfSort criteria = None
                          then ((None, Some errCriteria), [])
                          else search fs departureStationID arrivalStationID criteria)))"

subsection \<open>The vocabulary of the specification\<close>

text \<open>
  The station a text names: it parses as an integer that is at least 1. A criterion is
  recognized when it is one of the three the specification lists.
\<close>

definition stationID :: "string \<Rightarrow> int option" where
  "stationID s = (case Atoi s of Inl e \<Rightarrow> None | Inr n \<Rightarrow> if 1 \<le> n then Some n else None)"

definition recognized :: "string \<Rightarrow> bool" where
  "recognized criterion = (criterion \<in> set [''price'', ''arrival-time'', ''departure-time''])"

definition valid_input :: "string \<Rightarrow> string \<Rightarrow> string \<Rightarrow> bool" where
  "valid_input dep arr criterion =
     (stationID dep \<noteq> None \<and> stationID arr \<noteq> None \<and> recognized criterion)"

text \<open>
  The five checks in the order the specification numbers them, each with its error; the
  first check that fails gives the error of the call.
\<close>

definition checks :: "string \<Rightarrow> string \<Rightarrow> string \<Rightarrow> (bool \<times> error) list" where
  "checks dep arr criterion =
     [(dep \<noteq> [], errEmptyDepStation),
      (arr \<noteq> [], errEmptyArrStation),
      (stationID dep \<noteq> None, errBadDepStation),
      (stationID arr \<noteq> None, errBadArrStation),
      (recognized criterion, errCriteria)]"

definition first_failure :: "string \<Rightarrow> string \<Rightarrow> string \<Rightarrow> error option" where
  "first_failure dep arr criterion =
     map_option snd (find (\<lambda>c. \<not> fst c) (checks dep arr criterion))"

text \<open>The dataset a call sees, and its records that match both stations of a query.\<close>

definition dataset :: "(string \<Rightarrow> source) \<Rightarrow> Trains" where
  "dataset fs = fst (readDataFromJSON fs dataPath)"

definition matches :: "(string \<Rightarrow> source) \<Rightarrow> string \<Rightarrow> string \<Rightarrow> Trains" where
  "matches fs dep arr =
     filter (\<lambda>v. stationID dep = Some (DepartureStationID v)
                \<and> stationID arr = Some (ArrivalStationID v)) (dataset fs)"

text \<open>
  The sorted matches of the specification: the matching records in ascending order of the
  field the criterion names, records with equal values in dataset order. The order is
  given by \<open>sort_key\<close>, the stable sort of the list library, and owes nothing to the
  sort of the program.
\<close>

definition sorted_matches :: "(string \<Rightarrow> source) \<Rightarrow> string \<Rightarrow> string \<Rightarrow> string \<Rightarrow> Trains" where
  "sorted_matches fs dep arr criterion =
     (if criterion = ''price'' then sort_key Price (matches fs dep arr)
      else if criterion = ''departure-time'' then sort_key DepartureTime (matches fs dep arr)
      else if criterion = ''arrival-time'' then sort_key ArrivalTime (matches fs dep arr)
      else [])"

text \<open>The parts of an outcome; the length of a nil slice is 0.\<close>

definition result :: "outcome \<Rightarrow> Trains option" where
  "result out = fst (fst out)"

definition failure :: "outcome \<Rightarrow> error option" where
  "failure out = snd (fst out)"

definition effects :: "outcome \<Rightarrow> event list" where
  "effects out = snd out"

definition elems :: "Trains option \<Rightarrow> Trains" where
  "elems r = (case r of None \<Rightarrow> [] | Some xs \<Rightarrow> xs)"

text \<open>
  Ascending order of a sequence in the field a criterion names, and two records that
  agree in that field.
\<close>

definition ascending :: "string \<Rightarrow> Trains \<Rightarrow> bool" where
  "ascending criterion r =
     (if criterion = ''price'' then sorted (map Price r)
      else if criterion = ''departure-time'' then sorted (map DepartureTime r)
      else if criterion = ''arrival-time'' then sorted (map ArrivalTime r)
      else False)"

definition tied :: "string \<Rightarrow> Train \<Rightarrow> Train \<Rightarrow> bool" where
  "tied criterion t u =
     (if criterion = ''price'' then Price u = Price t
      else if criterion = ''departure-time'' then DepartureTime u = DepartureTime t
      else if criterion = ''arrival-time'' then ArrivalTime u = ArrivalTime t
      else False)"

subsection \<open>The query over any sort that meets the contract of the library\<close>

text \<open>
  What the documentation of \<^verbatim>\<open>sort.SliceStable\<close> promises, for a \<^verbatim>\<open>less\<close> that
  is a strict weak ordering (asymmetric, and negatively transitive): the slice is
  rearranged, it ends up sorted, and elements that are equal for \<^verbatim>\<open>less\<close>, neither
  less than the other, keep their original order.
\<close>

definition strict_weak :: "('a \<Rightarrow> 'a \<Rightarrow> bool) \<Rightarrow> bool" where
  "strict_weak lt =
     ((\<forall>a b. lt a b \<longrightarrow> \<not> lt b a) \<and> (\<forall>a b c. lt a c \<longrightarrow> lt a b \<or> lt b c))"

definition equivalent :: "('a \<Rightarrow> 'a \<Rightarrow> bool) \<Rightarrow> 'a \<Rightarrow> 'a \<Rightarrow> bool" where
  "equivalent lt x y = (\<not> lt x y \<and> \<not> lt y x)"

definition stable_sort_of :: "('a \<Rightarrow> 'a \<Rightarrow> bool) \<Rightarrow> 'a list \<Rightarrow> 'a list \<Rightarrow> bool" where
  "stable_sort_of lt xs ys =
     (mset ys = mset xs
      \<and> sorted_wrt (\<lambda>a b. \<not> lt b a) ys
      \<and> (\<forall>x. filter (equivalent lt x) ys = filter (equivalent lt x) xs))"

definition sort_contract :: "((Train \<Rightarrow> Train \<Rightarrow> bool) \<Rightarrow> Trains \<Rightarrow> Trains) \<Rightarrow> bool" where
  "sort_contract srt = (\<forall>lt xs. strict_weak lt \<longrightarrow> stable_sort_of lt xs (srt lt xs))"

text \<open>
  \<^verbatim>\<open>sortTrainsByAscending\<close> and \<^verbatim>\<open>FindTrains\<close> once more, line by line as above,
  with the sort as a parameter in place of \<open>SliceStable\<close>: the program as it runs on
  any implementation of the library.
\<close>

definition sortTrainsByAscending_with ::
  "((Train \<Rightarrow> Train \<Rightarrow> bool) \<Rightarrow> Trains \<Rightarrow> Trains) \<Rightarrow> Trains \<Rightarrow> string \<Rightarrow> Trains \<times> event list" where
  "sortTrainsByAscending_with srt trains criteria =
     ((if criteria = priceCriteria then
         srt (\<lambda>a b. Price a < Price b) trains
       else if criteria = departureTimeCriteria then
         srt (\<lambda>a b. Before (DepartureTime a) (DepartureTime b)) trains
       else if criteria = arrivalTimeCriteria then
         srt (\<lambda>a b. Before (ArrivalTime a) (ArrivalTime b)) trains
       else trains),
      [Println (''Sorting by '' @ criteria)])"

definition search_with ::
  "((Train \<Rightarrow> Train \<Rightarrow> bool) \<Rightarrow> Trains \<Rightarrow> Trains) \<Rightarrow> (string \<Rightarrow> source)
     \<Rightarrow> int \<Rightarrow> int \<Rightarrow> string \<Rightarrow> outcome" where
  "search_with srt fs departureStationID arrivalStationID criteria =
     (let (data, ev1) = readDataFromJSON fs dataPath;
          trains = matching data departureStationID arrivalStationID
      in if length trains < minLen then ((None, None), ev1)
         else (let (ordered, ev2) = sortTrainsByAscending_with srt trains criteria
               in if length ordered < numOfReturnTrains
                  then ((Some ordered, None), ev1 @ ev2)
                  else ((Some (take numOfReturnTrains ordered), None), ev1 @ ev2)))"

definition FindTrains_with ::
  "((Train \<Rightarrow> Train \<Rightarrow> bool) \<Rightarrow> Trains \<Rightarrow> Trains) \<Rightarrow> (string \<Rightarrow> source)
     \<Rightarrow> string \<Rightarrow> string \<Rightarrow> string \<Rightarrow> outcome" where
  "FindTrains_with srt fs departureStation arrivalStation criteria =
     (if length departureStation < minLen then ((None, Some errEmptyDepStation), [])
      else if length arrivalStation < minLen then ((None, Some errEmptyArrStation), [])
      else (case Atoi departureStation of
              Inl err \<Rightarrow> ((None, Some errBadDepStation), [])
            | Inr departureStationID \<Rightarrow>
                if departureStationID < minIDNumber
                then ((None, Some errBadDepStation), [])
                else (case Atoi arrivalStation of
                        Inl err \<Rightarrow> ((None, Some errBadArrStation), [])
                      | Inr arrivalStationID \<Rightarrow>
                          if arrivalStationID < minIDNumber
                          then ((None, Some errBadArrStation), [])
                          else if criteriaOfSort criteria = None
                          then ((None, Some errCriteria), [])
                          else search_with srt fs departureStationID arrivalStationID criteria)))"

text \<open>
  Two more sorts. The first inserts from the right end of the slice towards the left and
  is another stable sort. The second sorts the reversed slice: its output is sorted and a
  rearrangement of its input, but equal elements come out in reverse order.
\<close>

fun insertRight :: "('a \<Rightarrow> 'a \<Rightarrow> bool) \<Rightarrow> 'a \<Rightarrow> 'a list \<Rightarrow> 'a list" where
  "insertRight lt x [] = [x]"
| "insertRight lt x (y # ys) =
     (if lt y x then y # insertRight lt x ys else x # y # ys)"

definition insertionSort :: "('a \<Rightarrow> 'a \<Rightarrow> bool) \<Rightarrow> 'a list \<Rightarrow> 'a list" where
  "insertionSort lt xs = foldr (insertRight lt) xs []"

definition reversingSort :: "('a \<Rightarrow> 'a \<Rightarrow> bool) \<Rightarrow> 'a list \<Rightarrow> 'a list" where
  "reversingSort lt xs = SliceStable lt (rev xs)"

subsection \<open>A small dataset\<close>

definition mk :: "int \<Rightarrow> int \<Rightarrow> int \<Rightarrow> rat \<Rightarrow> time \<Rightarrow> time \<Rightarrow> Train" where
  "mk i d a p arrives departs =
     \<lparr>TrainID = i, DepartureStationID = d, ArrivalStationID = a, Price = p,
      ArrivalTime = arrives, DepartureTime = departs\<rparr>"

definition sample :: Trains where
  "sample =
     [mk 1 1 2 5 10 3,
      mk 2 1 2 (3 / 2) 10 2,
      mk 3 1 2 5 7 1,
      mk 4 1 2 (3 / 2) 10 9,
      mk 5 1 3 1 1 0,
      mk 6 4 2 1 1 0]"

definition sample_fs :: "string \<Rightarrow> source" where
  "sample_fs path =
     (if path = ''data.json'' then Readable sample else Unreadable ''no such file'')"

definition other_fs :: "string \<Rightarrow> source" where
  "other_fs path =
     (if path = ''data.json'' then Readable sample else Readable [])"

definition missing_fs :: "string \<Rightarrow> source" where
  "missing_fs path = Unreadable ''open data.json: no such file or directory''"

section \<open>Auxiliary facts\<close>

subsection \<open>Validation and filtering\<close>


lemmas const_defs = dataPath_def priceCriteria_def arrivalTimeCriteria_def departureTimeCriteria_def
  numOfReturnTrains_def minIDNumber_def minLen_def

lemma matching_acc:
  "foldl (\<lambda>trains v. if P v then trains @ [v] else trains) acc data = acc @ filter P data"
  by (induction data arbitrary: acc) simp_all

lemma matching_filter:
  "matching data d a = filter (\<lambda>v. DepartureStationID v = d \<and> ArrivalStationID v = a) data"
  unfolding matching_def by (simp add: matching_acc)

lemma criteriaOfSort_recognized: "(criteriaOfSort c = None) = (\<not> recognized c)"
  by (auto simp: criteriaOfSort_def recognized_def)

lemma Atoi_Nil: "Atoi [] = Inl ErrSyntax"
  by (simp add: Atoi_def)

lemma stationID_Nil: "stationID [] = None"
  by (simp add: stationID_def Atoi_Nil)

lemma FindTrains_valid:
  assumes "stationID dep = Some d" and "stationID arr = Some a" and "recognized c"
  shows "FindTrains fs dep arr c = search fs d a c"
proof -
  from assms(1) have d: "Atoi dep = Inr d" "1 \<le> d" "dep \<noteq> []"
    by (auto simp: stationID_def Atoi_Nil split: sum.splits if_splits)
  from assms(2) have a: "Atoi arr = Inr a" "1 \<le> a" "arr \<noteq> []"
    by (auto simp: stationID_def Atoi_Nil split: sum.splits if_splits)
  show ?thesis
    using d a assms(3)
    by (simp add: FindTrains_def minLen_def minIDNumber_def criteriaOfSort_recognized)
qed

lemma FindTrains_first_failure:
  assumes "first_failure dep arr c = Some e"
  shows "FindTrains fs dep arr c = ((None, Some e), [])"
  using assms
  by (auto simp: first_failure_def checks_def FindTrains_def minLen_def minIDNumber_def
      criteriaOfSort_recognized stationID_def split: if_splits sum.splits)

lemma first_failure_None:
  "(first_failure dep arr c = None) = valid_input dep arr c"
  by (auto simp: first_failure_def checks_def valid_input_def stationID_Nil)


lemma failure_search: "failure (search fs d a c) = None"
  by (simp add: failure_def search_def Let_def split: prod.splits)

subsection \<open>The stable sort\<close>

lemma moveLeft_length: "length (moveLeft lt x ys) = Suc (length ys)"
  by (induction ys) simp_all

lemma moveLeft_set: "set (moveLeft lt x ys) = insert x (set ys)"
  by (induction ys) auto

lemma moveLeft_descending:
  fixes key :: "'a \<Rightarrow> 'k::linorder"
  assumes "sorted_wrt (\<lambda>u v. key v \<le> key u) ys"
  shows "sorted_wrt (\<lambda>u v. key v \<le> key u) (moveLeft (\<lambda>u v. key u < key v) x ys)"
  using assms
proof (induction ys)
  case Nil
  then show ?case by simp
next
  case (Cons y ys)
  show ?case
  proof (cases "key x < key y")
    case True
    with Cons show ?thesis by (auto simp: moveLeft_set)
  next
    case False
    with Cons.prems show ?thesis by auto
  qed
qed

lemma moveLeft_ties:
  fixes key :: "'a \<Rightarrow> 'k::linorder"
  shows "filter (\<lambda>t. key t = k) (rev (moveLeft (\<lambda>u v. key u < key v) x ys))
         = filter (\<lambda>t. key t = k) (rev ys) @ filter (\<lambda>t. key t = k) [x]"
  by (induction ys) auto

lemma insertion_length:
  "length (foldl (\<lambda>acc x. moveLeft lt x acc) acc xs) = length acc + length xs"
  by (induction xs arbitrary: acc) (simp_all add: moveLeft_length)

lemma insertion_descending:
  fixes key :: "'a \<Rightarrow> 'k::linorder"
  assumes "sorted_wrt (\<lambda>u v. key v \<le> key u) acc"
  shows "sorted_wrt (\<lambda>u v. key v \<le> key u)
           (foldl (\<lambda>acc x. moveLeft (\<lambda>u v. key u < key v) x acc) acc xs)"
  using assms by (induction xs arbitrary: acc) (simp_all add: moveLeft_descending)

lemma insertion_ties:
  fixes key :: "'a \<Rightarrow> 'k::linorder"
  shows "filter (\<lambda>t. key t = k)
           (rev (foldl (\<lambda>acc x. moveLeft (\<lambda>u v. key u < key v) x acc) acc xs))
         = filter (\<lambda>t. key t = k) (rev acc) @ filter (\<lambda>t. key t = k) xs"
  by (induction xs arbitrary: acc) (simp_all add: moveLeft_ties)

lemma SliceStable_length: "length (SliceStable lt xs) = length xs"
  by (simp add: SliceStable_def insertion_length)

lemma SliceStable_sorted:
  fixes key :: "'a \<Rightarrow> 'k::linorder"
  shows "sorted (map key (SliceStable (\<lambda>u v. key u < key v) xs))"
proof -
  have "sorted_wrt (\<lambda>u v. key v \<le> key u)
          (foldl (\<lambda>acc x. moveLeft (\<lambda>u v. key u < key v) x acc) [] xs)"
    by (rule insertion_descending) simp
  then show ?thesis
    by (simp add: SliceStable_def sorted_map sorted_wrt_rev)
qed

lemma SliceStable_ties:
  fixes key :: "'a \<Rightarrow> 'k::linorder"
  shows "filter (\<lambda>t. key t = k) (SliceStable (\<lambda>u v. key u < key v) xs)
         = filter (\<lambda>t. key t = k) xs"
  using insertion_ties [of key k "[]" xs] by (simp add: SliceStable_def)

lemma sortTrains_length: "length (fst (sortTrainsByAscending ts c)) = length ts"
  by (simp add: sortTrainsByAscending_def SliceStable_length)

lemma search_result:
  "result (search fs d a c) =
     (if matching (dataset fs) d a = [] then None
      else Some (take numOfReturnTrains
                   (fst (sortTrainsByAscending (matching (dataset fs) d a) c))))"
  by (auto simp: result_def search_def dataset_def minLen_def Let_def split: prod.splits)

lemma matching_matches:
  assumes "stationID dep = Some d" and "stationID arr = Some a"
  shows "matching (dataset fs) d a = matches fs dep arr"
  using assms by (auto simp: matching_filter matches_def intro: filter_cong)

lemma valid_result:
  assumes "valid_input dep arr c"
  shows "result (FindTrains fs dep arr c) =
     (if matches fs dep arr = [] then None
      else Some (take numOfReturnTrains (fst (sortTrainsByAscending (matches fs dep arr) c))))"
proof -
  from assms obtain d a where da: "stationID dep = Some d" "stationID arr = Some a"
    and c: "recognized c"
    by (auto simp: valid_input_def)
  show ?thesis
    by (simp add: FindTrains_valid [OF da c] search_result matching_matches [OF da])
qed

lemma valid_elems:
  assumes "valid_input dep arr c"
  shows "elems (result (FindTrains fs dep arr c)) =
     take numOfReturnTrains (fst (sortTrainsByAscending (matches fs dep arr) c))"
proof (cases "matches fs dep arr = []")
  case True
  have "length (fst (sortTrainsByAscending (matches fs dep arr) c)) = 0"
    by (simp add: sortTrains_length True)
  then show ?thesis
    by (simp add: valid_result [OF assms] True elems_def)
next
  case False
  then show ?thesis by (simp add: valid_result [OF assms] elems_def)
qed




subsection \<open>Sorting the candidates\<close>


lemma sorted_key_sort:
  assumes "recognized c"
  shows "ascending c (fst (sortTrainsByAscending ts c))"
  using assms
  by (auto simp: recognized_def ascending_def sortTrainsByAscending_def const_defs Before_def
      SliceStable_sorted)

lemma ascending_take: "ascending c r \<Longrightarrow> ascending c (take n r)"
  by (auto simp: ascending_def sorted_map sorted_wrt_take split: if_splits)

lemma tied_sort:
  assumes "recognized c"
  shows "filter (tied c t) (fst (sortTrainsByAscending ts c)) = filter (tied c t) ts"
proof -
  from assms consider "c = ''price''" | "c = ''departure-time''" | "c = ''arrival-time''"
    by (auto simp: recognized_def)
  then show ?thesis
  proof cases
    case 1
    have "tied c t = (\<lambda>u. Price u = Price t)"
      by (simp add: tied_def 1 fun_eq_iff)
    then show ?thesis
      by (simp add: sortTrainsByAscending_def const_defs 1 SliceStable_ties)
  next
    case 2
    have "tied c t = (\<lambda>u. DepartureTime u = DepartureTime t)"
      by (simp add: tied_def 2 fun_eq_iff)
    then show ?thesis
      by (simp add: sortTrainsByAscending_def const_defs Before_def 2 SliceStable_ties)
  next
    case 3
    have "tied c t = (\<lambda>u. ArrivalTime u = ArrivalTime t)"
      by (simp add: tied_def 3 fun_eq_iff)
    then show ?thesis
      by (simp add: sortTrainsByAscending_def const_defs Before_def 3 SliceStable_ties)
  qed
qed

lemma invalid_outcome:
  assumes "\<not> valid_input dep arr c"
  shows "\<exists>e. FindTrains fs dep arr c = ((None, Some e), []) \<and> first_failure dep arr c = Some e"
proof -
  from assms obtain e where "first_failure dep arr c = Some e"
    using first_failure_None [of dep arr c] by (cases "first_failure dep arr c") auto
  then show ?thesis by (simp add: FindTrains_first_failure)
qed

lemma valid_failure:
  assumes "valid_input dep arr c"
  shows "failure (FindTrains fs dep arr c) = None"
proof -
  from assms obtain d a where "stationID dep = Some d" "stationID arr = Some a" "recognized c"
    by (auto simp: valid_input_def)
  then show ?thesis by (simp add: FindTrains_valid failure_search)
qed

subsection \<open>The contract of the library sort\<close>

lemma strict_weak_key:
  fixes key :: "'a \<Rightarrow> 'k::linorder"
  shows "strict_weak (\<lambda>a b. key a < key b)"
  by (auto simp: strict_weak_def)

lemma stable_sort_key_unique:
  fixes key :: "'a \<Rightarrow> 'k::linorder"
  assumes "stable_sort_of (\<lambda>a b. key a < key b) xs ys"
  shows "ys = sort_key key xs"
proof -
  from assms have m: "mset ys = mset xs"
    and s: "sorted_wrt (\<lambda>a b. \<not> key b < key a) ys"
    and t: "\<And>x. filter (equivalent (\<lambda>a b. key a < key b) x) ys
                 = filter (equivalent (\<lambda>a b. key a < key b) x) xs"
    by (simp_all add: stable_sort_of_def)
  have e: "equivalent (\<lambda>a b. key a < key b) x = (\<lambda>y. key x = key y)" for x
    by (auto simp: equivalent_def fun_eq_iff)
  have "sorted (map key ys)"
    using s by (simp add: sorted_map not_less)
  moreover have "filter (\<lambda>x. key k = key x) ys = filter (\<lambda>x. key k = key x) xs" for k
    using t [of k] by (simp add: e)
  ultimately show ?thesis
    using m by (simp add: properties_for_sort_key)
qed

lemma moveLeft_mset: "mset (moveLeft lt x ys) = add_mset x (mset ys)"
  by (induction ys) simp_all

lemma moveLeft_weak:
  assumes "strict_weak lt" and "sorted_wrt (\<lambda>u v. \<not> lt u v) ys"
  shows "sorted_wrt (\<lambda>u v. \<not> lt u v) (moveLeft lt x ys)"
  using assms(2)
proof (induction ys)
  case Nil
  then show ?case by simp
next
  case (Cons y ys)
  show ?case
  proof (cases "lt x y")
    case True
    with assms(1) have "\<not> lt y x" by (auto simp: strict_weak_def)
    with True Cons show ?thesis by (auto simp: moveLeft_set)
  next
    case False
    have "\<not> lt x z" if "z \<in> set ys" for z
    proof
      assume "lt x z"
      with assms(1) have "lt x y \<or> lt y z" unfolding strict_weak_def by blast
      with False Cons.prems that show False by auto
    qed
    with False Cons.prems show ?thesis by auto
  qed
qed

lemma equivalent_not_both:
  assumes "strict_weak lt" and "lt a b"
  shows "\<not> (equivalent lt x a \<and> equivalent lt x b)"
proof
  assume e: "equivalent lt x a \<and> equivalent lt x b"
  from assms have "lt a x \<or> lt x b" unfolding strict_weak_def by blast
  with e show False by (auto simp: equivalent_def)
qed

lemma moveLeft_equivalent:
  assumes "strict_weak lt"
  shows "filter (equivalent lt k) (rev (moveLeft lt x ys))
         = filter (equivalent lt k) (rev ys) @ filter (equivalent lt k) [x]"
proof (induction ys)
  case Nil
  then show ?case by simp
next
  case (Cons y ys)
  show ?case
  proof (cases "lt x y")
    case True
    from equivalent_not_both [OF assms True, of k] Cons True show ?thesis by auto
  next
    case False
    then show ?thesis by simp
  qed
qed

lemma SliceStable_contract:
  assumes "strict_weak lt"
  shows "stable_sort_of lt xs (SliceStable lt xs)"
proof -
  have m: "mset (foldl (\<lambda>acc x. moveLeft lt x acc) acc xs) = mset acc + mset xs" for acc
    by (induction xs arbitrary: acc) (simp_all add: moveLeft_mset)
  have s: "sorted_wrt (\<lambda>u v. \<not> lt u v) (foldl (\<lambda>acc x. moveLeft lt x acc) acc xs)"
    if "sorted_wrt (\<lambda>u v. \<not> lt u v) acc" for acc
    using that by (induction xs arbitrary: acc) (simp_all add: moveLeft_weak [OF assms])
  have t: "filter (equivalent lt k) (rev (foldl (\<lambda>acc x. moveLeft lt x acc) acc xs))
         = filter (equivalent lt k) (rev acc) @ filter (equivalent lt k) xs" for acc k
    by (induction xs arbitrary: acc) (simp_all add: moveLeft_equivalent [OF assms])
  have "sorted_wrt (\<lambda>u v. \<not> lt u v) (foldl (\<lambda>acc x. moveLeft lt x acc) [] xs)"
    by (rule s) simp
  then have "sorted_wrt (\<lambda>a b. \<not> lt b a) (SliceStable lt xs)"
    by (simp add: SliceStable_def sorted_wrt_rev)
  moreover have "mset (SliceStable lt xs) = mset xs"
    by (simp add: SliceStable_def m)
  moreover have "filter (equivalent lt k) (SliceStable lt xs) = filter (equivalent lt k) xs" for k
    using t [of k "[]"] by (simp add: SliceStable_def)
  ultimately show ?thesis by (simp add: stable_sort_of_def)
qed

lemma insertRight_set: "set (insertRight lt x ys) = insert x (set ys)"
  by (induction ys) auto

lemma insertRight_mset: "mset (insertRight lt x ys) = add_mset x (mset ys)"
  by (induction ys) simp_all

lemma insertRight_weak:
  assumes "strict_weak lt" and "sorted_wrt (\<lambda>a b. \<not> lt b a) ys"
  shows "sorted_wrt (\<lambda>a b. \<not> lt b a) (insertRight lt x ys)"
  using assms(2)
proof (induction ys)
  case Nil
  then show ?case by simp
next
  case (Cons y ys)
  show ?case
  proof (cases "lt y x")
    case True
    with assms(1) have "\<not> lt x y" by (auto simp: strict_weak_def)
    with True Cons show ?thesis by (auto simp: insertRight_set)
  next
    case False
    have "\<not> lt z x" if "z \<in> set ys" for z
    proof
      assume "lt z x"
      with assms(1) have "lt z y \<or> lt y x" unfolding strict_weak_def by blast
      with False Cons.prems that show False by auto
    qed
    with False Cons.prems show ?thesis by auto
  qed
qed

lemma insertRight_equivalent:
  assumes "strict_weak lt"
  shows "filter (equivalent lt k) (insertRight lt x ys)
         = filter (equivalent lt k) [x] @ filter (equivalent lt k) ys"
proof (induction ys)
  case Nil
  then show ?case by simp
next
  case (Cons y ys)
  show ?case
  proof (cases "lt y x")
    case True
    from equivalent_not_both [OF assms True, of k] Cons True show ?thesis by auto
  next
    case False
    then show ?thesis by simp
  qed
qed

lemma insertionSort_contract:
  assumes "strict_weak lt"
  shows "stable_sort_of lt xs (insertionSort lt xs)"
proof -
  have "mset (insertionSort lt xs) = mset xs"
    unfolding insertionSort_def by (induction xs) (simp_all add: insertRight_mset)
  moreover have "sorted_wrt (\<lambda>a b. \<not> lt b a) (insertionSort lt xs)"
    unfolding insertionSort_def by (induction xs) (simp_all add: insertRight_weak [OF assms])
  moreover have "filter (equivalent lt k) (insertionSort lt xs) = filter (equivalent lt k) xs" for k
    unfolding insertionSort_def by (induction xs) (simp_all add: insertRight_equivalent [OF assms])
  ultimately show ?thesis by (simp add: stable_sort_of_def)
qed

lemma SliceStable_sort_key:
  fixes key :: "'a \<Rightarrow> 'k::linorder"
  shows "SliceStable (\<lambda>a b. key a < key b) xs = sort_key key xs"
  by (rule stable_sort_key_unique) (rule SliceStable_contract [OF strict_weak_key])

lemma sort_key_by_criterion:
  assumes "recognized c"
  shows "fst (sortTrainsByAscending (matches fs dep arr) c) = sorted_matches fs dep arr c"
  using assms
  by (auto simp: recognized_def sorted_matches_def sortTrainsByAscending_def const_defs
      Before_def SliceStable_sort_key)

lemma contract_sort_key:
  fixes key :: "Train \<Rightarrow> 'k::linorder"
  assumes "sort_contract srt"
  shows "srt (\<lambda>a b. key a < key b) ts = SliceStable (\<lambda>a b. key a < key b) ts"
proof -
  from assms have "stable_sort_of (\<lambda>a b. key a < key b) ts (srt (\<lambda>a b. key a < key b) ts)"
    by (simp add: sort_contract_def strict_weak_key)
  then show ?thesis
    by (simp add: stable_sort_key_unique SliceStable_sort_key)
qed

lemma sortTrains_with_contract:
  assumes "sort_contract srt"
  shows "sortTrainsByAscending_with srt ts c = sortTrainsByAscending ts c"
  by (simp add: sortTrainsByAscending_with_def sortTrainsByAscending_def Before_def
      contract_sort_key [OF assms])

lemma FindTrains_with_contract:
  assumes "sort_contract srt"
  shows "FindTrains_with srt fs dep arr c = FindTrains fs dep arr c"
proof -
  have "search_with srt fs d a c = search fs d a c" for d a
    by (simp add: search_with_def search_def sortTrains_with_contract [OF assms]
        Let_def split: prod.splits)
  then show ?thesis
    by (auto simp: FindTrains_with_def FindTrains_def split: sum.splits)
qed

lemma FindTrains_reads_dataPath:
  assumes "fs1 dataPath = fs2 dataPath"
  shows "FindTrains fs1 dep arr c = FindTrains fs2 dep arr c"
proof -
  have "readDataFromJSON fs1 dataPath = readDataFromJSON fs2 dataPath"
    by (simp add: readDataFromJSON_def assms)
  then have "search fs1 d a c = search fs2 d a c" for d a
    by (simp add: search_def)
  then show ?thesis
    by (auto simp: FindTrains_def split: sum.splits)
qed

lemma SliceStable_meets_contract: "sort_contract SliceStable"
  by (simp add: sort_contract_def SliceStable_contract)

lemma insertionSort_meets_contract: "sort_contract insertionSort"
  by (simp add: sort_contract_def insertionSort_contract)

lemma reversingSort_sorted_permutation:
  assumes "strict_weak lt"
  shows "mset (reversingSort lt xs) = mset xs
         \<and> sorted_wrt (\<lambda>a b. \<not> lt b a) (reversingSort lt xs)"
  using SliceStable_contract [OF assms, of "rev xs"]
  by (simp add: reversingSort_def stable_sort_of_def)

subsection \<open>Outcomes and effects\<close>

lemma dataset_source:
  "dataset fs = (case fs dataPath of Unreadable msg \<Rightarrow> [] | Readable d \<Rightarrow> d)"
  by (simp add: dataset_def readDataFromJSON_def split: source.splits)

lemma valid_outcome:
  assumes "valid_input dep arr c"
  shows "fst (FindTrains fs dep arr c) = (result (FindTrains fs dep arr c), None)"
  using valid_failure [OF assms, of fs] by (simp add: failure_def result_def prod_eq_iff)

lemma search_effects:
  "effects (search fs d a c) =
     ReadFile dataPath
     # (case fs dataPath of Unreadable msg \<Rightarrow> [Println msg] | Readable ts \<Rightarrow> [])
     @ (if matching (dataset fs) d a = [] then [] else [Println (''Sorting by '' @ c)])"
  by (auto simp: effects_def search_def dataset_def readDataFromJSON_def minLen_def
      sortTrainsByAscending_def Let_def split: prod.splits source.splits)

section \<open>Properties of the query\<close>

text \<open>The definitions a concrete run unfolds.\<close>

lemmas run_defs = FindTrains_def search_def readDataFromJSON_def sortTrainsByAscending_def
  SliceStable_def matching_def Atoi_def isDigit_def digitVal_def criteriaOfSort_def Before_def
  const_defs

lemmas spec_defs = stationID_def recognized_def valid_input_def checks_def first_failure_def
  dataset_def matches_def result_def failure_def effects_def elems_def ascending_def tied_def

lemmas sample_defs = mk_def sample_def sample_fs_def other_fs_def missing_fs_def

text \<open>
  C1. The validation checks run in a fixed order: departure text non-empty, arrival text
  non-empty, departure text a station (an integer at least 1), arrival text a station,
  criterion recognized. The error of the call is the error of the first check that fails,
  and the result is then nil. When both texts are empty the departure error is the one
  returned, and the criterion error is returned only when both texts are stations.
\<close>

theorem validation_order:
  "failure (FindTrains fs dep arr c) = first_failure dep arr c
   \<and> (first_failure dep arr c \<noteq> None \<longrightarrow> result (FindTrains fs dep arr c) = None)
   \<and> fst (FindTrains fs [] [] c) = (None, Some errEmptyDepStation)
   \<and> (failure (FindTrains fs dep arr c) = Some errCriteria
        \<longrightarrow> stationID dep \<noteq> None \<and> stationID arr \<noteq> None)"
proof -
  have fail: "failure (FindTrains fs dep arr c) = first_failure dep arr c"
  proof (cases "first_failure dep arr c")
    case None
    then have "valid_input dep arr c" by (simp add: first_failure_None)
    then obtain d a where "stationID dep = Some d" "stationID arr = Some a" "recognized c"
      by (auto simp: valid_input_def)
    then show ?thesis
      by (simp add: FindTrains_valid failure_search None)
  next
    case (Some e)
    then show ?thesis
      by (simp add: FindTrains_first_failure failure_def)
  qed
  have res: "first_failure dep arr c \<noteq> None \<longrightarrow> result (FindTrains fs dep arr c) = None"
    by (auto simp: FindTrains_first_failure result_def)
  have both: "fst (FindTrains fs [] [] c) = (None, Some errEmptyDepStation)"
    by (simp add: FindTrains_def minLen_def)
  have crit: "first_failure dep arr c = Some errCriteria
      \<longrightarrow> stationID dep \<noteq> None \<and> stationID arr \<noteq> None"
    by (auto simp: first_failure_def checks_def split: if_splits)
  from fail res both crit show ?thesis by simp
qed

theorem validation_order_witness:
  "first_failure ''1902'' ''1929'' ''awef'' = Some errCriteria
   \<and> failure (FindTrains sample_fs ''1902'' ''1929'' ''awef'') = Some errCriteria
   \<and> result (FindTrains sample_fs ''1902'' ''1929'' ''awef'') = None
   \<and> stationID ''1902'' = Some 1902 \<and> stationID ''1929'' = Some 1929
   \<and> failure (FindTrains sample_fs ''serg'' '''' ''awef'') = Some errEmptyArrStation
   \<and> failure (FindTrains sample_fs ''serg'' ''0'' ''awef'') = Some errBadDepStation
   \<and> failure (FindTrains sample_fs ''7'' ''0'' ''awef'') = Some errBadArrStation"
proof -
  have ff: "first_failure ''1902'' ''1929'' ''awef'' = Some errCriteria"
    by (simp add: spec_defs run_defs)
  have ids: "stationID ''1902'' = Some 1902 \<and> stationID ''1929'' = Some 1929"
    by (simp add: spec_defs run_defs)
  have f2: "first_failure ''serg'' '''' ''awef'' = Some errEmptyArrStation"
    by (simp add: spec_defs run_defs)
  have f3: "first_failure ''serg'' ''0'' ''awef'' = Some errBadDepStation"
    by (simp add: spec_defs run_defs)
  have f4: "first_failure ''7'' ''0'' ''awef'' = Some errBadArrStation"
    by (simp add: spec_defs run_defs)
  show ?thesis
    using validation_order [of sample_fs "''1902''" "''1929''" "''awef''"]
      validation_order [of sample_fs "''serg''" "''''" "''awef''"]
      validation_order [of sample_fs "''serg''" "''0''" "''awef''"]
      validation_order [of sample_fs "''7''" "''0''" "''awef''"]
      ff ids f2 f3 f4
    by simp
qed

text \<open>
  C2. On a valid input the candidates, from which the result is sorted and cut, are the
  records of the dataset whose departure station is the parsed departure ID and whose
  arrival station is the parsed arrival ID, in dataset order: a record is a candidate if
  and only if both stations match.
\<close>

theorem filter_both_stations:
  assumes "stationID dep = Some d" and "stationID arr = Some a" and "recognized c"
  shows "result (FindTrains fs dep arr c) =
           (if matching (dataset fs) d a = [] then None
            else Some (take numOfReturnTrains
                         (fst (sortTrainsByAscending (matching (dataset fs) d a) c))))
         \<and> (v \<in> set (matching (dataset fs) d a)) =
             (v \<in> set (dataset fs) \<and> DepartureStationID v = d \<and> ArrivalStationID v = a)
         \<and> matching (dataset fs) d a =
             filter (\<lambda>v. DepartureStationID v = d \<and> ArrivalStationID v = a) (dataset fs)"
  by (simp add: FindTrains_valid [OF assms] search_result matching_filter)

theorem filter_both_stations_witness:
  "stationID ''1'' = Some 1 \<and> stationID ''2'' = Some 2 \<and> recognized ''price''
   \<and> mk 1 1 2 5 10 3 \<in> set (matching (dataset sample_fs) 1 2)
   \<and> mk 5 1 3 1 1 0 \<in> set (dataset sample_fs)
   \<and> mk 5 1 3 1 1 0 \<notin> set (matching (dataset sample_fs) 1 2)
   \<and> mk 6 4 2 1 1 0 \<in> set (dataset sample_fs)
   \<and> mk 6 4 2 1 1 0 \<notin> set (matching (dataset sample_fs) 1 2)"
proof -
  have h: "stationID ''1'' = Some 1" "stationID ''2'' = Some 2" "recognized ''price''"
    by (simp_all add: spec_defs run_defs)
  have d: "dataset sample_fs = sample"
    by (simp add: spec_defs run_defs sample_fs_def)
  show ?thesis
    using h filter_both_stations [OF h, where v = "mk 1 1 2 5 10 3" and fs = sample_fs]
      filter_both_stations [OF h, where v = "mk 5 1 3 1 1 0" and fs = sample_fs]
      filter_both_stations [OF h, where v = "mk 6 4 2 1 1 0" and fs = sample_fs]
    by (simp add: d sample_def mk_def)
qed


text \<open>
  C3. On a valid input with at least one matching record the returned sequence is not
  nil and is in ascending order of the field the criterion names: the price for
  \<^verbatim>\<open>price\<close>, the departure time for \<^verbatim>\<open>departure-time\<close>, the arrival time
  for \<^verbatim>\<open>arrival-time\<close>.
\<close>

theorem result_ascending:
  assumes "valid_input dep arr c" and "matches fs dep arr \<noteq> []"
  shows "result (FindTrains fs dep arr c) = Some (elems (result (FindTrains fs dep arr c)))
         \<and> ascending c (elems (result (FindTrains fs dep arr c)))"
proof -
  from assms(1) have "recognized c" by (simp add: valid_input_def)
  then have "ascending c (elems (result (FindTrains fs dep arr c)))"
    by (simp add: valid_elems [OF assms(1)] ascending_take sorted_key_sort)
  moreover have "result (FindTrains fs dep arr c)
      = Some (elems (result (FindTrains fs dep arr c)))"
    using assms(2) by (simp add: valid_result [OF assms(1)] elems_def)
  ultimately show ?thesis by simp
qed

theorem result_ascending_witness:
  "valid_input ''1'' ''2'' ''price'' \<and> matches sample_fs ''1'' ''2'' \<noteq> []
   \<and> result (FindTrains sample_fs ''1'' ''2'' ''price'')
       = Some [mk 2 1 2 (3 / 2) 10 2, mk 4 1 2 (3 / 2) 10 9, mk 1 1 2 5 10 3]
   \<and> ascending ''price'' [mk 2 1 2 (3 / 2) 10 2, mk 4 1 2 (3 / 2) 10 9, mk 1 1 2 5 10 3]
   \<and> result (FindTrains sample_fs ''1'' ''2'' ''departure-time'')
       = Some [mk 3 1 2 5 7 1, mk 2 1 2 (3 / 2) 10 2, mk 1 1 2 5 10 3]
   \<and> ascending ''departure-time'' [mk 3 1 2 5 7 1, mk 2 1 2 (3 / 2) 10 2, mk 1 1 2 5 10 3]
   \<and> result (FindTrains sample_fs ''1'' ''2'' ''arrival-time'')
       = Some [mk 3 1 2 5 7 1, mk 1 1 2 5 10 3, mk 2 1 2 (3 / 2) 10 2]
   \<and> ascending ''arrival-time'' [mk 3 1 2 5 7 1, mk 1 1 2 5 10 3, mk 2 1 2 (3 / 2) 10 2]"
proof -
  have v: "valid_input ''1'' ''2'' ''price''" "valid_input ''1'' ''2'' ''departure-time''"
    "valid_input ''1'' ''2'' ''arrival-time''"
    by (simp_all add: spec_defs run_defs)
  have m: "matches sample_fs ''1'' ''2'' \<noteq> []"
    by (simp add: spec_defs run_defs sample_defs)
  have r1: "result (FindTrains sample_fs ''1'' ''2'' ''price'')
       = Some [mk 2 1 2 (3 / 2) 10 2, mk 4 1 2 (3 / 2) 10 9, mk 1 1 2 5 10 3]"
    by (simp add: result_def run_defs sample_defs)
  have r2: "result (FindTrains sample_fs ''1'' ''2'' ''departure-time'')
       = Some [mk 3 1 2 5 7 1, mk 2 1 2 (3 / 2) 10 2, mk 1 1 2 5 10 3]"
    by (simp add: result_def run_defs sample_defs)
  have r3: "result (FindTrains sample_fs ''1'' ''2'' ''arrival-time'')
       = Some [mk 3 1 2 5 7 1, mk 1 1 2 5 10 3, mk 2 1 2 (3 / 2) 10 2]"
    by (simp add: result_def run_defs sample_defs)
  show ?thesis
    using v(1) m r1 r2 r3
      result_ascending [OF v(1) m] result_ascending [OF v(2) m] result_ascending [OF v(3) m]
    by (simp add: elems_def)
qed

text \<open>
  C4. The sort is stable. On a valid input, the returned records that agree with any
  given record in the field of the criterion come in the order the dataset has them:
  they are an initial part of the matching records of the dataset with that value.
\<close>

theorem ties_keep_dataset_order:
  assumes "valid_input dep arr c"
  shows "prefix (filter (tied c t) (elems (result (FindTrains fs dep arr c))))
           (filter (tied c t) (matches fs dep arr))"
proof -
  from assms have c: "recognized c" by (simp add: valid_input_def)
  have "prefix (take numOfReturnTrains (fst (sortTrainsByAscending (matches fs dep arr) c)))
          (fst (sortTrainsByAscending (matches fs dep arr) c))"
    by (rule take_is_prefix)
  then have "prefix
      (filter (tied c t)
         (take numOfReturnTrains (fst (sortTrainsByAscending (matches fs dep arr) c))))
      (filter (tied c t) (fst (sortTrainsByAscending (matches fs dep arr) c)))"
    by (rule filter_mono_prefix)
  then show ?thesis
    by (simp add: valid_elems [OF assms] tied_sort [OF c])
qed

theorem ties_keep_dataset_order_witness:
  "valid_input ''1'' ''2'' ''price''
   \<and> matches sample_fs ''1'' ''2''
       = [mk 1 1 2 5 10 3, mk 2 1 2 (3 / 2) 10 2, mk 3 1 2 5 7 1, mk 4 1 2 (3 / 2) 10 9]
   \<and> elems (result (FindTrains sample_fs ''1'' ''2'' ''price''))
       = [mk 2 1 2 (3 / 2) 10 2, mk 4 1 2 (3 / 2) 10 9, mk 1 1 2 5 10 3]
   \<and> prefix [mk 2 1 2 (3 / 2) 10 2, mk 4 1 2 (3 / 2) 10 9]
        [mk 2 1 2 (3 / 2) 10 2, mk 4 1 2 (3 / 2) 10 9]
   \<and> prefix [mk 1 1 2 5 10 3] [mk 1 1 2 5 10 3, mk 3 1 2 5 7 1]"
proof -
  have v: "valid_input ''1'' ''2'' ''price''"
    by (simp add: spec_defs run_defs)
  have m: "matches sample_fs ''1'' ''2''
       = [mk 1 1 2 5 10 3, mk 2 1 2 (3 / 2) 10 2, mk 3 1 2 5 7 1, mk 4 1 2 (3 / 2) 10 9]"
    by (simp add: spec_defs run_defs sample_defs)
  have r: "elems (result (FindTrains sample_fs ''1'' ''2'' ''price''))
       = [mk 2 1 2 (3 / 2) 10 2, mk 4 1 2 (3 / 2) 10 9, mk 1 1 2 5 10 3]"
    by (simp add: result_def elems_def run_defs sample_defs)
  show ?thesis
    using v m r
      ties_keep_dataset_order [OF v, where t = "mk 2 1 2 (3 / 2) 10 2" and fs = sample_fs]
      ties_keep_dataset_order [OF v, where t = "mk 1 1 2 5 10 3" and fs = sample_fs]
    by (simp add: tied_def mk_def)
qed

text \<open>
  C5. On a valid input the returned sequence has min(3, number of matching records)
  elements; it is the first three of the sorted matches, and when at most three records
  match, all of them are returned.
\<close>

theorem first_three_sorted:
  assumes "valid_input dep arr c"
  shows "length (elems (result (FindTrains fs dep arr c))) = min 3 (length (matches fs dep arr))
         \<and> elems (result (FindTrains fs dep arr c)) = take 3 (sorted_matches fs dep arr c)
         \<and> (length (matches fs dep arr) \<le> 3
              \<longrightarrow> mset (elems (result (FindTrains fs dep arr c))) = mset (matches fs dep arr))"
proof -
  from assms have c: "recognized c" by (simp add: valid_input_def)
  have e: "elems (result (FindTrains fs dep arr c)) = take 3 (sorted_matches fs dep arr c)"
    by (simp add: valid_elems [OF assms] sort_key_by_criterion [OF c] numOfReturnTrains_def)
  have m: "mset (sorted_matches fs dep arr c) = mset (matches fs dep arr)"
    using c by (auto simp: recognized_def sorted_matches_def)
  then have l: "length (sorted_matches fs dep arr c) = length (matches fs dep arr)"
    by (rule mset_eq_length)
  from e l m show ?thesis by (simp add: min.commute)
qed

theorem first_three_sorted_witness:
  "valid_input ''1'' ''2'' ''price'' \<and> length (matches sample_fs ''1'' ''2'') = 4
   \<and> take 3 (sorted_matches sample_fs ''1'' ''2'' ''price'')
       = [mk 2 1 2 (3 / 2) 10 2, mk 4 1 2 (3 / 2) 10 9, mk 1 1 2 5 10 3]
   \<and> elems (result (FindTrains sample_fs ''1'' ''2'' ''price''))
       = [mk 2 1 2 (3 / 2) 10 2, mk 4 1 2 (3 / 2) 10 9, mk 1 1 2 5 10 3]
   \<and> valid_input ''4'' ''2'' ''price'' \<and> length (matches sample_fs ''4'' ''2'') \<le> 3
   \<and> matches sample_fs ''4'' ''2'' = [mk 6 4 2 1 1 0]
   \<and> mset (elems (result (FindTrains sample_fs ''4'' ''2'' ''price''))) = mset [mk 6 4 2 1 1 0]"
proof -
  have v: "valid_input ''1'' ''2'' ''price''" "valid_input ''4'' ''2'' ''price''"
    by (simp_all add: spec_defs run_defs)
  have m1: "matches sample_fs ''1'' ''2''
       = [mk 1 1 2 5 10 3, mk 2 1 2 (3 / 2) 10 2, mk 3 1 2 5 7 1, mk 4 1 2 (3 / 2) 10 9]"
    by (simp add: spec_defs run_defs sample_defs)
  have m2: "matches sample_fs ''4'' ''2'' = [mk 6 4 2 1 1 0]"
    by (simp add: spec_defs run_defs sample_defs)
  have s: "take 3 (sorted_matches sample_fs ''1'' ''2'' ''price'')
       = [mk 2 1 2 (3 / 2) 10 2, mk 4 1 2 (3 / 2) 10 9, mk 1 1 2 5 10 3]"
    by (simp add: sorted_matches_def m1) (simp add: mk_def)
  note t1 = first_three_sorted [OF v(1), of sample_fs]
  note t2 = first_three_sorted [OF v(2), of sample_fs]
  have l1: "length (matches sample_fs ''1'' ''2'') = 4"
    by (simp add: m1)
  have l2: "length (matches sample_fs ''4'' ''2'') \<le> 3"
    by (simp add: m2)
  have e1: "elems (result (FindTrains sample_fs ''1'' ''2'' ''price''))
       = [mk 2 1 2 (3 / 2) 10 2, mk 4 1 2 (3 / 2) 10 9, mk 1 1 2 5 10 3]"
    using conjunct1 [OF conjunct2 [OF t1]] by (simp only: s)
  have e2: "mset (elems (result (FindTrains sample_fs ''4'' ''2'' ''price'')))
       = mset [mk 6 4 2 1 1 0]"
    using mp [OF conjunct2 [OF conjunct2 [OF t2]] l2] by (simp only: m2)
  from v(1) l1 s e1 v(2) l2 m2 e2 show ?thesis
    by (intro conjI)
qed

text \<open>
  C6. On a valid input that no record of the dataset matches, the result is empty and
  the error is nil. An error that is not nil is the error of a failed validation check,
  so a call without matches is not an error.
\<close>

theorem no_match_no_error:
  "(valid_input dep arr c \<and> matches fs dep arr = []
      \<longrightarrow> elems (result (FindTrains fs dep arr c)) = []
          \<and> failure (FindTrains fs dep arr c) = None)
   \<and> (failure (FindTrains fs dep arr c) \<noteq> None
      \<longrightarrow> \<not> valid_input dep arr c
          \<and> failure (FindTrains fs dep arr c) = first_failure dep arr c)"
proof -
  have "elems (result (FindTrains fs dep arr c)) = [] \<and> failure (FindTrains fs dep arr c) = None"
    if "valid_input dep arr c" and "matches fs dep arr = []"
    using that by (simp add: valid_result valid_failure elems_def)
  moreover have "\<not> valid_input dep arr c
      \<and> failure (FindTrains fs dep arr c) = first_failure dep arr c"
    if f: "failure (FindTrains fs dep arr c) \<noteq> None"
  proof -
    from f have nv: "\<not> valid_input dep arr c"
      using valid_failure [of dep arr c fs] by auto
    from invalid_outcome [OF nv, of fs] show ?thesis
      using nv by (auto simp: failure_def)
  qed
  ultimately show ?thesis by blast
qed

theorem no_match_no_error_witness:
  "valid_input ''12'' ''1929'' ''price'' \<and> matches sample_fs ''12'' ''1929'' = []
   \<and> elems (result (FindTrains sample_fs ''12'' ''1929'' ''price'')) = []
   \<and> failure (FindTrains sample_fs ''12'' ''1929'' ''price'') = None
   \<and> failure (FindTrains sample_fs ''serg'' ''1922'' ''price'') = Some errBadDepStation
   \<and> \<not> valid_input ''serg'' ''1922'' ''price''"
proof -
  have v: "valid_input ''12'' ''1929'' ''price''"
    by (simp add: spec_defs run_defs)
  have m: "matches sample_fs ''12'' ''1929'' = []"
    by (simp add: spec_defs run_defs sample_defs)
  have f: "failure (FindTrains sample_fs ''serg'' ''1922'' ''price'') = Some errBadDepStation"
    by (simp add: failure_def run_defs)
  show ?thesis
    using v m f no_match_no_error [of "''12''" "''1929''" "''price''" sample_fs]
      no_match_no_error [of "''serg''" "''1922''" "''price''" sample_fs]
    by simp
qed

text \<open>
  C7. On a valid input, when the dataset file cannot be opened the call returns
  (nil, nil): the same pair as with an empty dataset, and the same pair as with any
  dataset that has no matching record, so the returned pair does not tell a load failure
  from zero matches.
\<close>

theorem unreadable_as_empty:
  assumes "fs dataPath = Unreadable msg" and "valid_input dep arr c"
  shows "fst (FindTrains fs dep arr c) = (None, None)
         \<and> fst (FindTrains fs dep arr c)
             = fst (FindTrains (fs(dataPath := Readable [])) dep arr c)
         \<and> (matches fs' dep arr = []
              \<longrightarrow> fst (FindTrains fs' dep arr c) = fst (FindTrains fs dep arr c))"
proof -
  have m1: "matches fs dep arr = []"
    by (simp add: matches_def dataset_source assms(1))
  have m2: "matches (fs(dataPath := Readable [])) dep arr = []"
    by (simp add: matches_def dataset_source)
  have none: "fst (FindTrains g dep arr c) = (None, None)" if "matches g dep arr = []" for g
    using that by (simp add: valid_outcome [OF assms(2)] valid_result [OF assms(2)])
  show ?thesis
    by (simp add: none m1 m2)
qed

theorem unreadable_as_empty_witness:
  "missing_fs dataPath = Unreadable ''open data.json: no such file or directory''
   \<and> valid_input ''1'' ''4'' ''price''
   \<and> matches sample_fs ''1'' ''4'' = []
   \<and> fst (FindTrains missing_fs ''1'' ''4'' ''price'') = (None, None)
   \<and> fst (FindTrains missing_fs ''1'' ''4'' ''price'')
       = fst (FindTrains (missing_fs(dataPath := Readable [])) ''1'' ''4'' ''price'')
   \<and> fst (FindTrains sample_fs ''1'' ''4'' ''price'')
       = fst (FindTrains missing_fs ''1'' ''4'' ''price'')"
proof -
  have u: "missing_fs dataPath = Unreadable ''open data.json: no such file or directory''"
    by (simp add: missing_fs_def)
  have v: "valid_input ''1'' ''4'' ''price''"
    by (simp add: spec_defs run_defs)
  have m: "matches sample_fs ''1'' ''4'' = []"
    by (simp add: spec_defs run_defs sample_defs)
  note t = unreadable_as_empty [where fs = missing_fs and fs' = sample_fs, OF u v]
  note c1 = conjunct1 [OF t]
  note c2 = conjunct1 [OF conjunct2 [OF t]]
  note c3 = mp [OF conjunct2 [OF conjunct2 [OF t]] m]
  from u v m c1 c2 c3 show ?thesis
    by (intro conjI)
qed

text \<open>
  C8, as stated: the read of the dataset source is the only side effect of the call.
  It is not: on a valid input with a match the call also writes a line to standard
  output.
\<close>

theorem effects_counterexample:
  "effects (FindTrains sample_fs ''1'' ''2'' ''price'')
     = [ReadFile ''data.json'', Println ''Sorting by price'']
   \<and> \<not> set (effects (FindTrains sample_fs ''1'' ''2'' ''price'')) \<subseteq> {ReadFile ''data.json''}"
  by (simp add: effects_def run_defs sample_defs)

text \<open>
  C8, amended. When a validation check fails the call has no effect at all, so it
  returns before the dataset is loaded. On a valid input the call reads the dataset
  source first, and its other effects are lines written to standard output: the error of
  the open when the source cannot be opened, and the line naming the criterion when at
  least one record matches. A read happens only on a valid input, and only of the dataset
  path.
\<close>

theorem effects_after_validation:
  "(\<not> valid_input dep arr c \<longrightarrow> effects (FindTrains fs dep arr c) = [])
   \<and> (valid_input dep arr c \<longrightarrow>
        effects (FindTrains fs dep arr c) =
          ReadFile dataPath
          # (case fs dataPath of Unreadable msg \<Rightarrow> [Println msg] | Readable ts \<Rightarrow> [])
          @ (if matches fs dep arr = [] then [] else [Println (''Sorting by '' @ c)]))
   \<and> (ReadFile p \<in> set (effects (FindTrains fs dep arr c))
        \<longrightarrow> valid_input dep arr c \<and> p = dataPath)"
proof -
  have inv: "effects (FindTrains fs dep arr c) = []" if "\<not> valid_input dep arr c"
    using invalid_outcome [OF that, of fs] by (auto simp: effects_def)
  have val: "effects (FindTrains fs dep arr c) =
          ReadFile dataPath
          # (case fs dataPath of Unreadable msg \<Rightarrow> [Println msg] | Readable ts \<Rightarrow> [])
          @ (if matches fs dep arr = [] then [] else [Println (''Sorting by '' @ c)])"
    if "valid_input dep arr c"
  proof -
    from that obtain d a where da: "stationID dep = Some d" "stationID arr = Some a"
      and c: "recognized c"
      by (auto simp: valid_input_def)
    show ?thesis
      by (simp add: FindTrains_valid [OF da c] search_effects matching_matches [OF da])
  qed
  have rd: "valid_input dep arr c \<and> p = dataPath"
    if "ReadFile p \<in> set (effects (FindTrains fs dep arr c))"
  proof (cases "valid_input dep arr c")
    case True
    with that show ?thesis
      by (auto simp: val split: source.splits if_splits)
  next
    case False
    with that show ?thesis by (simp add: inv)
  qed
  from inv val rd show ?thesis by blast
qed

theorem effects_after_validation_witness:
  "\<not> valid_input ''1902'' ''1929'' ''awef''
   \<and> effects (FindTrains missing_fs ''1902'' ''1929'' ''awef'') = []
   \<and> valid_input ''1'' ''2'' ''price''
   \<and> effects (FindTrains sample_fs ''1'' ''2'' ''price'')
       = [ReadFile ''data.json'', Println ''Sorting by price'']
   \<and> effects (FindTrains missing_fs ''1'' ''2'' ''price'')
       = [ReadFile ''data.json'', Println ''open data.json: no such file or directory'']
   \<and> ReadFile ''data.json'' \<in> set (effects (FindTrains sample_fs ''1'' ''2'' ''price''))"
proof -
  have nv: "\<not> valid_input ''1902'' ''1929'' ''awef''"
    by (simp add: spec_defs run_defs)
  have v: "valid_input ''1'' ''2'' ''price''"
    by (simp add: spec_defs run_defs)
  have m1: "matches sample_fs ''1'' ''2'' \<noteq> []"
    by (simp add: spec_defs run_defs sample_defs)
  have m2: "matches missing_fs ''1'' ''2'' = []"
    by (simp add: spec_defs run_defs sample_defs)
  have s1: "sample_fs ''data.json'' = Readable sample"
    by (simp add: sample_fs_def)
  have s2: "missing_fs ''data.json'' = Unreadable ''open data.json: no such file or directory''"
    by (simp add: missing_fs_def)
  note t0 = effects_after_validation [of "''1902''" "''1929''" "''awef''" missing_fs]
  note t1 = effects_after_validation [of "''1''" "''2''" "''price''" sample_fs]
  note t2 = effects_after_validation [of "''1''" "''2''" "''price''" missing_fs]
  have e0: "effects (FindTrains missing_fs ''1902'' ''1929'' ''awef'') = []"
    by (rule mp [OF conjunct1 [OF t0] nv])
  have e1: "effects (FindTrains sample_fs ''1'' ''2'' ''price'')
       = [ReadFile ''data.json'', Println ''Sorting by price'']"
    using mp [OF conjunct1 [OF conjunct2 [OF t1]] v] m1
    by (simp add: dataPath_def s1)
  have e2: "effects (FindTrains missing_fs ''1'' ''2'' ''price'')
       = [ReadFile ''data.json'', Println ''open data.json: no such file or directory'']"
    using mp [OF conjunct1 [OF conjunct2 [OF t2]] v] m2
    by (simp add: dataPath_def s2)
  have e3: "ReadFile ''data.json'' \<in> set (effects (FindTrains sample_fs ''1'' ''2'' ''price''))"
    by (simp add: e1)
  from nv e0 v e1 e2 e3 show ?thesis
    by (intro conjI)
qed

text \<open>
  A sort that only sorts does not fix the outcome: with the sort that reverses ties the
  same call on the same dataset returns other records, in another order.
\<close>

lemma reversingSort_other_outcome:
  "result (FindTrains_with reversingSort sample_fs ''1'' ''2'' ''price'')
     = Some [mk 4 1 2 (3 / 2) 10 9, mk 2 1 2 (3 / 2) 10 2, mk 3 1 2 5 7 1]
   \<and> result (FindTrains sample_fs ''1'' ''2'' ''price'')
     = Some [mk 2 1 2 (3 / 2) 10 2, mk 4 1 2 (3 / 2) 10 9, mk 1 1 2 5 10 3]"
  by (simp add: result_def FindTrains_with_def search_with_def sortTrainsByAscending_with_def
      reversingSort_def run_defs sample_defs)

text \<open>
  C9. The call is deterministic. Whatever sorts the library provides, as long as they
  meet the contract of \<^verbatim>\<open>sort.SliceStable\<close>, two calls with the same three texts on
  file systems that agree at the dataset path have the same outcome: the same records in
  the same order, tied records included, the same error and the same effects. That
  outcome is the one computed with the insertion of the library.
\<close>

theorem outcome_determined:
  assumes "sort_contract srt1" and "sort_contract srt2" and "fs1 dataPath = fs2 dataPath"
  shows "FindTrains_with srt1 fs1 dep arr c = FindTrains_with srt2 fs2 dep arr c
         \<and> FindTrains_with srt1 fs1 dep arr c = FindTrains fs1 dep arr c"
  by (simp add: FindTrains_with_contract [OF assms(1)] FindTrains_with_contract [OF assms(2)]
      FindTrains_reads_dataPath [where ?fs1.0 = fs1 and ?fs2.0 = fs2, OF assms(3)])

theorem outcome_determined_witness:
  "sort_contract SliceStable \<and> sort_contract insertionSort
   \<and> sample_fs dataPath = other_fs dataPath \<and> sample_fs ''x'' \<noteq> other_fs ''x''
   \<and> FindTrains_with SliceStable sample_fs ''1'' ''2'' ''price''
       = FindTrains_with insertionSort other_fs ''1'' ''2'' ''price''
   \<and> FindTrains_with insertionSort other_fs ''1'' ''2'' ''price''
       = ((Some [mk 2 1 2 (3 / 2) 10 2, mk 4 1 2 (3 / 2) 10 9, mk 1 1 2 5 10 3], None),
          [ReadFile ''data.json'', Println ''Sorting by price''])"
proof -
  have h: "sample_fs dataPath = other_fs dataPath"
    by (simp add: sample_defs dataPath_def)
  have d: "sample_fs ''x'' \<noteq> other_fs ''x''"
    by (simp add: sample_defs)
  have r: "FindTrains_with insertionSort other_fs ''1'' ''2'' ''price''
       = ((Some [mk 2 1 2 (3 / 2) 10 2, mk 4 1 2 (3 / 2) 10 9, mk 1 1 2 5 10 3], None),
          [ReadFile ''data.json'', Println ''Sorting by price''])"
    by (simp add: FindTrains_with_def search_with_def sortTrainsByAscending_with_def
        insertionSort_def run_defs sample_defs)
  note t = outcome_determined
    [where ?srt1.0 = SliceStable and ?srt2.0 = insertionSort and ?fs1.0 = sample_fs
       and ?fs2.0 = other_fs,
     OF SliceStable_meets_contract insertionSort_meets_contract h,
     of "''1''" "''2''" "''price''"]
  from SliceStable_meets_contract insertionSort_meets_contract h d conjunct1 [OF t] r
  show ?thesis
    by (intro conjI)
qed

text \<open>
  C10. On a valid input without a matching record the returned sequence is nil, and a
  returned sequence that is not nil is not empty.
\<close>

theorem nil_when_no_match:
  "(valid_input dep arr c \<and> matches fs dep arr = []
      \<longrightarrow> result (FindTrains fs dep arr c) = None)
   \<and> (result (FindTrains fs dep arr c) = Some r \<longrightarrow> r \<noteq> [])"
proof -
  have a: "result (FindTrains fs dep arr c) = None"
    if "valid_input dep arr c" and "matches fs dep arr = []"
    using that by (simp add: valid_result)
  have b: "r \<noteq> []" if r: "result (FindTrains fs dep arr c) = Some r"
  proof (cases "valid_input dep arr c")
    case True
    from r have ne: "matches fs dep arr \<noteq> []"
      by (auto simp: valid_result [OF True] split: if_splits)
    then have "length (fst (sortTrainsByAscending (matches fs dep arr) c)) \<noteq> 0"
      by (simp add: sortTrains_length)
    then have "take numOfReturnTrains (fst (sortTrainsByAscending (matches fs dep arr) c)) \<noteq> []"
      by (simp add: numOfReturnTrains_def)
    with r ne show ?thesis
      by (auto simp: valid_result [OF True])
  next
    case False
    from invalid_outcome [OF False, of fs] r show ?thesis
      by (auto simp: result_def)
  qed
  from a b show ?thesis by blast
qed

theorem nil_when_no_match_witness:
  "valid_input ''1902'' ''11'' ''price'' \<and> matches sample_fs ''1902'' ''11'' = []
   \<and> result (FindTrains sample_fs ''1902'' ''11'' ''price'') = None
   \<and> result (FindTrains sample_fs ''4'' ''2'' ''arrival-time'') = Some [mk 6 4 2 1 1 0]
   \<and> [mk 6 4 2 1 1 0] \<noteq> []"
proof -
  have v: "valid_input ''1902'' ''11'' ''price''"
    by (simp add: spec_defs run_defs)
  have m: "matches sample_fs ''1902'' ''11'' = []"
    by (simp add: spec_defs run_defs sample_defs)
  have r: "result (FindTrains sample_fs ''4'' ''2'' ''arrival-time'') = Some [mk 6 4 2 1 1 0]"
    by (simp add: result_def run_defs sample_defs)
  show ?thesis
    using v m r
      nil_when_no_match [of "''1902''" "''11''" "''price''" sample_fs]
      nil_when_no_match [of "''4''" "''2''" "''arrival-time''" sample_fs "[mk 6 4 2 1 1 0]"]
    by simp
qed

end
